theory Spec2Isabelle
  imports Main "HOL-Library.Word" "HOL-Library.Multiset"
begin

unbundle bit_operations_syntax

section \<open>handle.hpp: the handle and its capability queries\<close>

text \<open>
  \<^verbatim>\<open>enum class caching : unsigned char\<close>, with the enumerators in the order of the
  source. \<open>caching_code\<close> is the value the source gives each enumerator ("bit 0 set means
  safety fsyncs enabled").
\<close>

datatype caching =
    Caching_unchanged
  | Caching_none
  | Caching_only_metadata
  | Caching_reads
  | Caching_reads_and_metadata
  | Caching_all
  | Caching_safety_fsyncs
  | Caching_temporary

fun caching_code :: "caching \<Rightarrow> 8 word" where
  "caching_code Caching_unchanged = 0"
| "caching_code Caching_none = 1"
| "caching_code Caching_only_metadata = 2"
| "caching_code Caching_reads = 3"
| "caching_code Caching_reads_and_metadata = 5"
| "caching_code Caching_all = 4"
| "caching_code Caching_safety_fsyncs = 7"
| "caching_code Caching_temporary = 6"

text \<open>The bitfield \<open>flag\<close>: a word of flag bits, with the constants of the source.\<close>

type_synonym flag = "32 word"

definition flag_none :: flag where
  "flag_none = 0"

definition win_delete_on_last_close :: flag where
  "win_delete_on_last_close = push_bit 0 1"

definition posix_unlink_on_first_close :: flag where
  "posix_unlink_on_first_close = push_bit 1 1"

definition disable_safety_fsyncs :: flag where
  "disable_safety_fsyncs = push_bit 2 1"

definition overlapped :: flag where
  "overlapped = push_bit 28 1"

definition byte_lock_insanity :: flag where
  "byte_lock_insanity = push_bit 29 1"

text \<open>
  Modelled from the spec: \<open>native_handle_type\<close> (native_handle_type.hpp is not among the
  sources): "a platform resource id and a small descriptor bitmask". The queries below
  never read it.
\<close>

record native_handle_type =
  behaviour :: "32 word"
  init :: int

text \<open>The protected members \<open>_caching\<close>, \<open>_flags\<close>, \<open>_v\<close> of \<open>class handle\<close>.\<close>

record handle =
  h_caching :: caching
  h_flags :: flag
  h_v :: native_handle_type

text \<open>
  \<^verbatim>\<open>bool are_reads_from_cache() const noexcept
  { return _caching != caching::none && _caching != caching::only_metadata; }\<close>
\<close>

definition are_reads_from_cache :: "handle \<Rightarrow> bool" where
  "are_reads_from_cache h \<longleftrightarrow>
     h_caching h \<noteq> Caching_none \<and> h_caching h \<noteq> Caching_only_metadata"

text \<open>
  \<^verbatim>\<open>bool are_writes_durable() const noexcept
  { return _caching == caching::none || _caching == caching::reads
        || _caching == caching::reads_and_metadata; }\<close>
\<close>

definition are_writes_durable :: "handle \<Rightarrow> bool" where
  "are_writes_durable h \<longleftrightarrow>
     h_caching h = Caching_none \<or> h_caching h = Caching_reads
       \<or> h_caching h = Caching_reads_and_metadata"

text \<open>
  \<^verbatim>\<open>bool are_safety_fsyncs_issued() const noexcept
  { return !(_flags & flag::disable_safety_fsyncs) && !!(static_cast<int>(_caching) & 1); }\<close>
  The cast widens the unsigned char to an int; \<open>!\<close> of a bitfield or an int is "equals zero".
\<close>

definition are_safety_fsyncs_issued :: "handle \<Rightarrow> bool" where
  "are_safety_fsyncs_issued h \<longleftrightarrow>
     (h_flags h AND disable_safety_fsyncs) = 0
       \<and> ((ucast (caching_code (h_caching h)) :: 32 word) AND 1) \<noteq> 0"

section \<open>The world outside: external calls and the byte-range lock table\<close>

text \<open>
  Modelled from the spec: \<open>deadline\<close> (deadline.h is not among the sources): "a value is
  either infinite, zero (poll/try), a relative duration, or an absolute point;
  duration-based deadlines are measured against a steady clock, point-based deadlines
  against a system clock". \<open>Deadline_none\<close> is the default-constructed deadline, for which
  \<^verbatim>\<open>if(d)\<close> is false; times are in nanoseconds.
\<close>

datatype deadline =
    Deadline_none
  | Deadline_steady nat
  | Deadline_utc nat

fun deadline_set :: "deadline \<Rightarrow> bool" where
  "deadline_set Deadline_none = False"
| "deadline_set (Deadline_steady _) = True"
| "deadline_set (Deadline_utc _) = True"

fun steady :: "deadline \<Rightarrow> bool" where
  "steady (Deadline_steady _) = True"
| "steady _ = False"

fun nsecs :: "deadline \<Rightarrow> nat" where
  "nsecs (Deadline_steady n) = n"
| "nsecs _ = 0"

fun to_time_point :: "deadline \<Rightarrow> nat" where
  "to_time_point (Deadline_utc t) = t"
| "to_time_point _ = 0"

text \<open>\<^verbatim>\<open>deadline(std::chrono::seconds(0))\<close>: the zero-duration (try) deadline.\<close>

definition deadline_zero :: deadline where
  "deadline_zero = Deadline_steady 0"

text \<open>
  \<open>extent_type\<close> is \<^verbatim>\<open>unsigned long long\<close>. An \<^verbatim>\<open>io_handle *\<close> is the address of an
  io_handle, \<open>None\<close> for \<^verbatim>\<open>nullptr\<close>.
\<close>

type_synonym extent_type = "64 word"
type_synonym io_handle_ptr = nat

text \<open>
  Every call that leaves the code under study (the virtual \<open>io_handle::lock\<close> and
  \<open>io_handle::unlock\<close>, the file open and close, the clocks, the standard library) is
  recorded, in order, with its arguments.
\<close>

datatype event =
    Ev_file_open
  | Ev_file_close
  | Ev_steady_now
  | Ev_system_now
  | Ev_lock io_handle_ptr extent_type extent_type bool deadline
  | Ev_unlock io_handle_ptr extent_type extent_type
  | Ev_random_shuffle
  | Ev_yield

text \<open>
  The state outside the code: the calls made so far; the byte ranges granted to the
  caller's handles and not yet unlocked (handle, offset, length); every range ever
  granted, in the order of the grants (a history: nothing is taken off it); and the
  steady clock.
\<close>

record world =
  trace :: "event list"
  held :: "(io_handle_ptr \<times> extent_type \<times> extent_type) list"
  granted :: "(io_handle_ptr \<times> extent_type \<times> extent_type) list"
  steady_time :: nat

text \<open>
  Modelled from the spec: \<open>io_handle::unlock(offset, bytes)\<close> (declared in handle.hpp, its
  implementation is not among the sources): "must exactly match a previously granted
  range"; unlocking a range that is not held "must not corrupt subsequent lock/unlock
  bookkeeping for other ranges", so it changes nothing but the record of the call.
\<close>

definition io_unlock :: "io_handle_ptr \<Rightarrow> extent_type \<Rightarrow> extent_type \<Rightarrow> world \<Rightarrow> world" where
  "io_unlock h offset bytes w =
     w\<lparr>trace := trace w @ [Ev_unlock h offset bytes],
       held := remove1 (h, offset, bytes) (held w)\<rparr>"

section \<open>handle.hpp: io_handle::extent_guard\<close>

text \<open>The members \<open>_h\<close>, \<open>_offset\<close>, \<open>_length\<close>, \<open>_exclusive\<close>.\<close>

record extent_guard =
  g_h :: "io_handle_ptr option"
  g_offset :: extent_type
  g_length :: extent_type
  g_exclusive :: bool

text \<open>
  The private constructor \<^verbatim>\<open>extent_guard(io_handle *h, offset, length, exclusive)\<close> and the
  default constructor (\<^verbatim>\<open>_h(nullptr), _offset(0), _length(0), _exclusive(false)\<close>).
\<close>

definition make_extent_guard ::
    "io_handle_ptr option \<Rightarrow> extent_type \<Rightarrow> extent_type \<Rightarrow> bool \<Rightarrow> extent_guard" where
  "make_extent_guard h offset len excl =
     \<lparr>g_h = h, g_offset = offset, g_length = len, g_exclusive = excl\<rparr>"

definition default_extent_guard :: extent_guard where
  "default_extent_guard = make_extent_guard None 0 0 False"

text \<open>\<^verbatim>\<open>explicit operator bool() const noexcept { return _h != nullptr; }\<close>\<close>

definition guard_valid :: "extent_guard \<Rightarrow> bool" where
  "guard_valid g \<longleftrightarrow> g_h g \<noteq> None"

text \<open>
  \<^verbatim>\<open>void release() noexcept { _h = nullptr; _offset = 0; _length = 0; _exclusive = false; }\<close>
\<close>

definition release :: "extent_guard \<Rightarrow> extent_guard" where
  "release g = g\<lparr>g_h := None, g_offset := 0, g_length := 0, g_exclusive := False\<rparr>"

text \<open>
  \<^verbatim>\<open>void unlock() noexcept { if(_h) { _h->unlock(_offset, _length); release(); } }\<close>
\<close>

definition unlock :: "extent_guard \<Rightarrow> world \<Rightarrow> extent_guard \<times> world" where
  "unlock g w =
     (case g_h g of
        Some h \<Rightarrow> (release g, io_unlock h (g_offset g) (g_length g) w)
      | None \<Rightarrow> (g, w))"

text \<open>\<^verbatim>\<open>~extent_guard() { if(_h) unlock(); }\<close>: the guard is gone, the world remains.\<close>

definition destroy :: "extent_guard \<Rightarrow> world \<Rightarrow> world" where
  "destroy g w = (if g_h g \<noteq> None then snd (unlock g w) else w)"

text \<open>
  \<^verbatim>\<open>extent_guard(extent_guard &&o) noexcept
    : _h(o._h), _offset(o._offset), _length(o._length), _exclusive(o._exclusive)
  { o.release(); }\<close>
  The result is the new guard and the source after the move. The new object is never the
  source itself.
\<close>

definition move_construct :: "extent_guard \<Rightarrow> extent_guard \<times> extent_guard" where
  "move_construct o' =
     (make_extent_guard (g_h o') (g_offset o') (g_length o') (g_exclusive o'), release o')"

text \<open>
  Move assignment may be given the same object on both sides, so the guards live in a
  store, addressed by their location:
  \<^verbatim>\<open>extent_guard &operator=(extent_guard &&o) noexcept
  { unlock(); _h = o._h; _offset = o._offset; _length = o._length;
    _exclusive = o._exclusive; o.release(); return *this; }\<close>
\<close>

type_synonym guard_store = "nat \<Rightarrow> extent_guard"

definition move_assign :: "nat \<Rightarrow> nat \<Rightarrow> guard_store \<Rightarrow> world \<Rightarrow> guard_store \<times> world" where
  "move_assign this o' s w =
     (let (g, w1) = unlock (s this) w;
          s1 = s(this := g);
          s2 = s1(this := (s1 this)\<lparr>g_h := g_h (s1 o')\<rparr>);
          s3 = s2(this := (s2 this)\<lparr>g_offset := g_offset (s2 o')\<rparr>);
          s4 = s3(this := (s3 this)\<lparr>g_length := g_length (s3 o')\<rparr>);
          s5 = s4(this := (s4 this)\<lparr>g_exclusive := g_exclusive (s4 o')\<rparr>);
          s6 = s5(o' := release (s5 o'))
      in (s6, w1))"

section \<open>handle.hpp: io_handle::io_result\<close>

text \<open>
  Modelled from the spec: \<open>result<T>\<close> (Boost.Outcome is not among the sources): "a result
  carrying either a value or one error kind"; a default-constructed result carries
  neither. The error kinds are those the sources name, and any other errno.
\<close>

datatype errc = ETIMEDOUT | ENOTSUP | ECANCELED | Errno nat

datatype 'a result = Result_empty | Result_value 'a | Result_error errc

text \<open>
  \<open>size_type\<close> is \<open>size_t\<close>, taken as 64 bits wide. A \<open>buffer_type\<close> is
  \<^verbatim>\<open>std::pair<char *, size_type>\<close>: an address and a length.
\<close>

type_synonym size_type = "64 word"
type_synonym buffer_type = "nat \<times> size_type"

text \<open>An \<open>io_result\<close> is the result it derives from and the member \<open>_bytes_transferred\<close>.\<close>

record 'a io_result =
  base :: "'a result"
  bytes_transferred_cache :: size_type

text \<open>
  The constructors: \<^verbatim>\<open>io_result(Args &&... args)
    : result<T>(std::forward<Args>(args)...), _bytes_transferred((size_type) -1)\<close>
\<close>

definition make_io_result :: "'a result \<Rightarrow> 'a io_result" where
  "make_io_result r = \<lparr>base = r, bytes_transferred_cache = - 1\<rparr>"

text \<open>
  The loop \<^verbatim>\<open>for(auto &i : this->value()) _bytes_transferred += i.second;\<close> with the
  member as accumulator; the addition is that of \<open>size_type\<close> and wraps.
\<close>

fun add_transferred :: "size_type \<Rightarrow> buffer_type list \<Rightarrow> size_type" where
  "add_transferred acc [] = acc"
| "add_transferred acc (i # rest) = add_transferred (acc + snd i) rest"

text \<open>
  \<^verbatim>\<open>size_type bytes_transferred() noexcept
  { if(_bytes_transferred == (size_type) -1)
    { _bytes_transferred = 0;
      for(auto &i : this->value()) _bytes_transferred += i.second; }
    return _bytes_transferred; }\<close>
  The answer comes with the io_result as the call leaves it. \<open>value()\<close> of a result that
  carries no value does not return: \<open>None\<close>.
\<close>

definition bytes_transferred ::
    "buffer_type list io_result \<Rightarrow> (size_type \<times> buffer_type list io_result) option" where
  "bytes_transferred r =
     (if bytes_transferred_cache r = - 1 then
        (case base r of
           Result_value buffers \<Rightarrow>
             (let n = add_transferred 0 buffers
              in Some (n, r\<lparr>bytes_transferred_cache := n\<rparr>))
         | _ \<Rightarrow> None)
      else Some (bytes_transferred_cache r, r))"

section \<open>lock_files.hpp: the surroundings of lock_files::_lock\<close>

text \<open>
  Modelled from the spec: \<open>entity_type\<close> (base.hpp is not among the sources): "value:
  64-bit id, exclusive: bool". \<open>entities_type\<close> is a vector of them.
\<close>

record entity_type =
  e_value :: "64 word"
  e_exclusive :: bool

type_synonym entities_type = "entity_type list"

text \<open>
  What the other parties, the kernel, the clocks and the random number generator do is
  not the code's to decide. It is given by an environment, which answers each call from
  the number of calls made before it: whether the lock file opens, what a lock request
  gets, how far the steady clock has moved on, what the system clock shows, and what
  \<open>rand()\<close> returns.
\<close>

datatype lock_reply =
    Lock_errored errc
  | Lock_declined
  | Lock_granted

record env =
  file_reply :: "nat \<Rightarrow> errc option"
  lock_answer :: "nat \<Rightarrow> lock_reply"
  steady_advance :: "nat \<Rightarrow> nat"
  system_clock :: "nat \<Rightarrow> nat"
  rand :: "nat \<Rightarrow> nat \<Rightarrow> nat"

text \<open>
  \<open>steady_clock::now()\<close> never runs backwards: it is the previous reading plus what the
  environment adds. \<open>system_clock::now()\<close> may show anything.
\<close>

definition steady_clock_now :: "env \<Rightarrow> world \<Rightarrow> nat \<times> world" where
  "steady_clock_now e w =
     (let t = steady_time w + steady_advance e (length (trace w))
      in (t, w\<lparr>trace := trace w @ [Ev_steady_now], steady_time := t\<rparr>))"

definition system_clock_now :: "env \<Rightarrow> world \<Rightarrow> nat \<times> world" where
  "system_clock_now e w =
     (system_clock e (length (trace w)), w\<lparr>trace := trace w @ [Ev_system_now]\<rparr>)"

text \<open>
  Modelled from the spec: \<open>file_handle::file(path, mode::write, creation::if_needed,
  caching::temporary)\<close> (file_handle.hpp is not among the sources): it opens the lock file
  or fails with an error kind. The handle it returns is closed when it is destroyed.
\<close>

definition file_handle_file :: "env \<Rightarrow> world \<Rightarrow> errc option \<times> world" where
  "file_handle_file e w = (file_reply e (length (trace w)), w\<lparr>trace := trace w @ [Ev_file_open]\<rparr>)"

definition close_file :: "world \<Rightarrow> world" where
  "close_file w = w\<lparr>trace := trace w @ [Ev_file_close]\<rparr>"

text \<open>
  Modelled from the spec: \<open>io_handle::lock(offset, bytes, exclusive, d)\<close> (declared in
  handle.hpp, its implementation is not among the sources): it returns an error kind, or
  "an extent guard, the destruction of which will call unlock()". \<open>lock_files::_lock\<close>
  tests the guard it gets with \<^verbatim>\<open>if(!guard)\<close>, so a lock that is declined may also come
  back as a guard that is not valid. A granted range joins the held ranges, and the
  history of grants.
\<close>

definition io_lock ::
    "env \<Rightarrow> io_handle_ptr \<Rightarrow> extent_type \<Rightarrow> extent_type \<Rightarrow> bool \<Rightarrow> deadline \<Rightarrow> world
      \<Rightarrow> (errc + extent_guard) \<times> world" where
  "io_lock e h offset bytes excl d w =
     (let w1 = w\<lparr>trace := trace w @ [Ev_lock h offset bytes excl d]\<rparr>
      in case lock_answer e (length (trace w)) of
           Lock_errored err \<Rightarrow> (Inl err, w1)
         | Lock_declined \<Rightarrow> (Inr default_extent_guard, w1)
         | Lock_granted \<Rightarrow>
             (Inr (make_extent_guard (Some h) offset bytes excl),
              w1\<lparr>held := (h, offset, bytes) # held w1,
                 granted := granted w1 @ [(h, offset, bytes)]\<rparr>))"

text \<open>
  Modelled from the spec: \<open>std::random_shuffle\<close> and \<open>std::this_thread::yield\<close> (the C++
  standard library): "randomly permute the entity order and yield the current thread".
  The shuffle is the usual exchange loop: for each position \<open>i\<close> from 1 on, swap the
  element at \<open>i\<close> with the one at \<open>rand() % (i + 1)\<close>.
\<close>

function shuffle_from :: "(nat \<Rightarrow> nat) \<Rightarrow> nat \<Rightarrow> 'a list \<Rightarrow> 'a list" where
  "shuffle_from r i xs =
     (if i < length xs
      then shuffle_from r (Suc i) (xs[i := xs ! (r i mod Suc i), r i mod Suc i := xs ! i])
      else xs)"
  by pat_completeness auto
termination
  by (relation "measure (\<lambda>(r, i, xs). length xs - i)") auto

declare shuffle_from.simps [simp del]

definition random_shuffle :: "env \<Rightarrow> 'a list \<Rightarrow> world \<Rightarrow> 'a list \<times> world" where
  "random_shuffle e xs w =
     (shuffle_from (rand e (length (trace w))) 1 xs,
      w\<lparr>trace := trace w @ [Ev_random_shuffle]\<rparr>)"

definition yield :: "world \<Rightarrow> world" where
  "yield w = w\<lparr>trace := trace w @ [Ev_yield]\<rparr>"

section \<open>lock_files.hpp: lock_files::_lock and lock_files::unlock\<close>

text \<open>
  The code locks and unlocks on \<open>_h\<close>, which the class does not declare; it is the
  parameter \<open>h\<close> here. \<open>n\<close> is a \<open>size_t\<close>, as is \<open>out.entities.size()\<close>.
\<close>

definition entities_size :: "entities_type \<Rightarrow> 64 word" where
  "entities_size es = of_nat (length es)"

text \<open>
  The start of \<open>_lock\<close>: \<^verbatim>\<open>if(d) { if((d).steady) began_steady = steady_clock::now();
  else end_utc = (d).to_time_point(); }\<close>. The two time points start at zero.
\<close>

definition start_clock :: "env \<Rightarrow> deadline \<Rightarrow> world \<Rightarrow> (nat \<times> nat) \<times> world" where
  "start_clock e d w =
     (if deadline_set d then
        (if steady d then (let (t, w1) = steady_clock_now e w in ((t, 0), w1))
         else ((0, to_time_point d), w))
      else ((0, 0), w))"

text \<open>
  The test at the head of the for body: true when the code is to return ETIMEDOUT.
  \<^verbatim>\<open>if(d) { if((d).steady)
            { if(steady_clock::now() >= (began_steady + nanoseconds((d).nsecs))) return ...; }
          else { if(system_clock::now() >= end_utc) return ...; } }\<close>
\<close>

definition deadline_passed :: "env \<Rightarrow> deadline \<Rightarrow> nat \<times> nat \<Rightarrow> world \<Rightarrow> bool \<times> world" where
  "deadline_passed e d t w =
     (if deadline_set d then
        (if steady d then (let (now, w1) = steady_clock_now e w in (fst t + nsecs d \<le> now, w1))
         else (let (now, w1) = system_clock_now e w in (snd t \<le> now, w1)))
      else (False, w))"

text \<open>How the for loop is left: it ran to its end, by \<^verbatim>\<open>goto failed\<close>, or by \<^verbatim>\<open>return\<close>.\<close>

datatype for_exit = Completed | Goto_failed | Returned errc

text \<open>
  \<^verbatim>\<open>for(n = 0; n < out.entities.size(); n++)
  { (the deadline test)
    deadline nd(std::chrono::seconds(0));
    BOOST_OUTCOME_FILTER_ERROR(guard, _h.lock(out.entities[n].value, 1,
                                              out.entities[n].exclusive, nd));
    if(!guard) goto failed; }\<close>
  from a given \<open>n\<close> on. \<open>BOOST_OUTCOME_FILTER_ERROR\<close> returns the error of an errored result
  and otherwise names the value \<open>guard\<close>. \<open>guard\<close> is local to the body of the loop: it is
  destroyed when the body is left, at the end of each round as well as by the goto, and
  the code never calls \<open>release()\<close> on it. The result is how the loop was left, the value
  of \<open>n\<close> then, and the world.
\<close>

function lock_each ::
    "env \<Rightarrow> io_handle_ptr \<Rightarrow> deadline \<Rightarrow> nat \<times> nat \<Rightarrow> entities_type \<Rightarrow> 64 word \<Rightarrow> world
      \<Rightarrow> for_exit \<times> 64 word \<times> world" where
  "lock_each e h d t es n w =
     (if n < entities_size es then
        (case deadline_passed e d t w of
           (True, w1) \<Rightarrow> (Returned ETIMEDOUT, n, w1)
         | (False, w1) \<Rightarrow>
             (case io_lock e h (e_value (es ! unat n)) 1 (e_exclusive (es ! unat n))
                     deadline_zero w1 of
                (Inl err, w2) \<Rightarrow> (Returned err, n, w2)
              | (Inr guard, w2) \<Rightarrow>
                  if \<not> guard_valid guard then (Goto_failed, n, destroy guard w2)
                  else lock_each e h d t es (n + 1) (destroy guard w2)))
      else (Completed, n, w))"
  by pat_completeness auto
termination
proof (relation "measure (\<lambda>(e, h, d, t, es, n, w). unat (entities_size es) - unat n)")
  show "wf (measure (\<lambda>(e, h, d, t, es, n, w). unat (entities_size es) - unat n))"
    by simp
next
  fix e :: env and h :: io_handle_ptr and d :: deadline and t :: "nat \<times> nat"
    and es :: entities_type and n :: "64 word" and w w2 :: world and guard :: extent_guard
  assume less: "n < entities_size es"
  from less have "n \<noteq> - 1"
    by (metis word_order.extremum_strict)
  then have "1 + n \<noteq> 0"
    by (metis add_eq_0_iff)
  then have "unat (n + 1) = Suc (unat n)"
    by (simp add: unatSuc add.commute)
  moreover from less have "unat n < unat (entities_size es)"
    by (simp add: word_less_nat_alt)
  ultimately show "((e, h, d, t, es, n + 1, destroy guard w2), e, h, d, t, es, n, w)
      \<in> measure (\<lambda>(e, h, d, t, es, n, w). unat (entities_size es) - unat n)"
    by simp
qed

declare lock_each.simps [simp del]

text \<open>
  The rollback the Undoer runs when its scope is left without \<open>dismiss()\<close>:
  \<^verbatim>\<open>for(; n != (size_t) -1; n--) { _h.unlock(out.entities[n].value, 1); }\<close>
  It works on the \<open>n\<close> of \<open>_lock\<close> itself (captured by reference), so the result carries
  the value it leaves in \<open>n\<close>. Reading \<open>out.entities[n]\<close> beyond the end of the vector is
  undefined behaviour: \<open>None\<close>.
\<close>

function undo :: "io_handle_ptr \<Rightarrow> entities_type \<Rightarrow> 64 word \<Rightarrow> world \<Rightarrow> (64 word \<times> world) option"
  where
  "undo h es n w =
     (if n \<noteq> - 1 then
        (if unat n < length es
         then undo h es (n - 1) (io_unlock h (e_value (es ! unat n)) 1 w)
         else None)
      else Some (n, w))"
  by pat_completeness auto
termination
proof (relation "measure (\<lambda>(h, es, n, w). unat (n + 1))")
  show "wf (measure (\<lambda>(h, es, n, w). unat (n + 1)))"
    by simp
next
  fix h :: io_handle_ptr and es :: entities_type and n :: "64 word" and w :: world
  assume "n \<noteq> - 1"
  then have "1 + n \<noteq> 0"
    by (metis add_eq_0_iff)
  then have "unat (n + 1) = Suc (unat n)"
    by (simp add: unatSuc add.commute)
  then show "((h, es, n - 1, io_unlock h (e_value (es ! unat n)) 1 w), h, es, n, w)
      \<in> measure (\<lambda>(h, es, n, w). unat (n + 1))"
    by simp
qed

declare undo.simps [simp del]

text \<open>
  One round of the do loop, from the \<open>n\<close> and the entity order it finds. The block holds,
  in order of construction, the Undoer, the file handle \<open>ret\<close> that
  \<^verbatim>\<open>BOOST_OUTCOME_FILTER_ERROR(ret, file_handle::file(...))\<close> names, and the for loop;
  leaving the block destroys \<open>ret\<close> (closing the file) and then runs the Undoer unless it
  was dismissed. After the loop has run to its end the code dismisses the Undoer and
  continues with the loop condition; after \<^verbatim>\<open>goto failed\<close> it shuffles
  \<open>out.entities\<close>, yields, and comes to the loop condition; a return leaves \<open>_lock\<close>.
\<close>

datatype pass_exit =
    To_condition "64 word" entities_type world
  | Return_error errc entities_type world
  | Undefined_behaviour

definition pass ::
    "env \<Rightarrow> io_handle_ptr \<Rightarrow> deadline \<Rightarrow> nat \<times> nat \<Rightarrow> entities_type \<Rightarrow> 64 word \<Rightarrow> world
      \<Rightarrow> pass_exit" where
  "pass e h d t es n w =
     (case file_handle_file e w of
        (Some err, w1) \<Rightarrow>
          (case undo h es n w1 of
             None \<Rightarrow> Undefined_behaviour
           | Some (n', w2) \<Rightarrow> Return_error err es w2)
      | (None, w1) \<Rightarrow>
          (case lock_each e h d t es 0 w1 of
             (Completed, n1, w2) \<Rightarrow> To_condition n1 es (close_file w2)
           | (Goto_failed, n1, w2) \<Rightarrow>
               (case undo h es n1 (close_file w2) of
                  None \<Rightarrow> Undefined_behaviour
                | Some (n2, w3) \<Rightarrow>
                    (let (es', w4) = random_shuffle e es w3
                     in To_condition n2 es' (yield w4)))
           | (Returned err, n1, w2) \<Rightarrow>
               (case undo h es n1 (close_file w2) of
                  None \<Rightarrow> Undefined_behaviour
                | Some (n2, w3) \<Rightarrow> Return_error err es w3)))"

text \<open>
  Whatever the rollback is given, it leaves \<open>n\<close> at \<open>(size_t) -1\<close>; and the for loop runs to
  its end only with \<open>n\<close> no longer below the size. So no round of the do loop comes to
  the loop condition with \<open>n\<close> below the size.
\<close>

lemma undo_leaves_minus_one:
  "undo h es n w = Some (n', w') \<Longrightarrow> n' = - 1"
proof (induction h es n w rule: undo.induct)
  case (1 h es n w)
  from "1.prems" "1.IH" show ?case
    by (subst (asm) undo.simps) (auto split: if_splits)
qed

lemma lock_each_completed:
  "lock_each e h d t es n w = (Completed, n1, w2) \<Longrightarrow> \<not> n1 < entities_size es"
proof (induction e h d t es n w rule: lock_each.induct)
  case (1 e h d t es n w)
  show ?case
  proof (cases "n < entities_size es")
    case False
    with "1.prems" show ?thesis
      by (simp add: lock_each.simps [of e h d t es n w])
  next
    case True
    with "1.prems" "1.IH" show ?thesis
      by (auto simp: lock_each.simps [of e h d t es n w]
          split: prod.splits bool.splits sum.splits if_splits)
  qed
qed

lemma pass_to_condition:
  "pass e h d t es n w = To_condition n' es' w' \<Longrightarrow> \<not> n' < entities_size es'"
  by (auto simp: pass_def split: prod.splits option.splits for_exit.splits
      dest: lock_each_completed undo_leaves_minus_one)

text \<open>
  What \<open>_lock\<close> comes to: \<^verbatim>\<open>make_result<void>()\<close>, an errored result, or undefined
  behaviour; with \<open>out.entities\<close> and the world as it leaves them.
\<close>

datatype lock_result =
    Lock_ok entities_type world
  | Lock_error errc entities_type world
  | Lock_undefined

text \<open>
  \<^verbatim>\<open>do { (one round) } while(n < out.entities.size()); return make_result<void>();\<close>
  The loop is entered again only from a round that came to the loop condition with \<open>n\<close>
  below the size. No round does (\<open>pass_to_condition\<close>), which is why the recursion ends.
\<close>

function lock_loop ::
    "env \<Rightarrow> io_handle_ptr \<Rightarrow> deadline \<Rightarrow> nat \<times> nat \<Rightarrow> entities_type \<Rightarrow> 64 word \<Rightarrow> world
      \<Rightarrow> lock_result" where
  "lock_loop e h d t es n w =
     (case pass e h d t es n w of
        To_condition n' es' w' \<Rightarrow>
          if n' < entities_size es' then lock_loop e h d t es' n' w'
          else Lock_ok es' w'
      | Return_error err es' w' \<Rightarrow> Lock_error err es' w'
      | Undefined_behaviour \<Rightarrow> Lock_undefined)"
  by pat_completeness auto
termination
proof (relation "{}")
  show "wf {}" by simp
next
  fix e h d t es n w n' es' w'
  assume "pass e h d t es n w = To_condition n' es' w'" and "n' < entities_size es'"
  then show "((e, h, d, t, es', n', w'), e, h, d, t, es, n, w) \<in> {}"
    using pass_to_condition by blast
qed

declare lock_loop.simps [simp del]

text \<open>
  \<^verbatim>\<open>virtual result<void> _lock(entities_guard &out, deadline d) noexcept\<close>: \<open>es\<close> is
  \<open>out.entities\<close>, and \<open>n0\<close> is the value the uninitialised \<^verbatim>\<open>size_t n;\<close> happens to have.
\<close>

definition lock_files_lock ::
    "env \<Rightarrow> io_handle_ptr \<Rightarrow> deadline \<Rightarrow> entities_type \<Rightarrow> 64 word \<Rightarrow> world \<Rightarrow> lock_result" where
  "lock_files_lock e h d es n0 w =
     (let (t, w1) = start_clock e d w in lock_loop e h d t es n0 w1)"

text \<open>
  \<^verbatim>\<open>virtual void unlock(entities_type entities) noexcept
  { for(const auto &i : entities) { _h.unlock(i.value, 1); } }\<close>
\<close>

fun lock_files_unlock :: "io_handle_ptr \<Rightarrow> entities_type \<Rightarrow> world \<Rightarrow> world" where
  "lock_files_unlock h [] w = w"
| "lock_files_unlock h (i # entities) w =
     lock_files_unlock h entities (io_unlock h (e_value i) 1 w)"

section \<open>Vocabulary for the calls of lock_files\<close>

text \<open>
  The lock request and the unlock call that \<open>lock_files\<close> makes for an entity on the
  handle \<open>h\<close>, the byte range they are about, and the test for a lock request.
\<close>

fun is_lock_request :: "event \<Rightarrow> bool" where
  "is_lock_request (Ev_lock _ _ _ _ _) = True"
| "is_lock_request _ = False"

definition lock_request :: "io_handle_ptr \<Rightarrow> entity_type \<Rightarrow> event" where
  "lock_request h i = Ev_lock h (e_value i) 1 (e_exclusive i) deadline_zero"

definition unlock_call :: "io_handle_ptr \<Rightarrow> entity_type \<Rightarrow> event" where
  "unlock_call h i = Ev_unlock h (e_value i) 1"

definition entity_range :: "io_handle_ptr \<Rightarrow> entity_type \<Rightarrow> io_handle_ptr \<times> extent_type \<times> extent_type" where
  "entity_range h i = (h, e_value i, 1)"

text \<open>A sequence of calls whose last call is a lock request.\<close>

definition ends_with_request :: "event list \<Rightarrow> bool" where
  "ends_with_request tr \<longleftrightarrow> tr \<noteq> [] \<and> is_lock_request (last tr)"

section \<open>Example inputs\<close>

text \<open>
  A world in which nothing has happened yet, three entities, and an environment in which
  the lock file opens, every lock request made before \<open>k\<close> calls have happened is
  granted and every later one is declined, and each reading of the steady clock is one
  nanosecond after the one before.
\<close>

definition example_world :: world where
  "example_world = \<lparr>trace = [], held = [], granted = [], steady_time = 0\<rparr>"

definition example_entities :: entities_type where
  "example_entities =
     [\<lparr>e_value = 1, e_exclusive = True\<rparr>, \<lparr>e_value = 2, e_exclusive = False\<rparr>,
      \<lparr>e_value = 3, e_exclusive = True\<rparr>]"

definition example_env :: "nat \<Rightarrow> env" where
  "example_env k =
     \<lparr>file_reply = (\<lambda>_. None),
      lock_answer = (\<lambda>i. if i < k then Lock_granted else Lock_declined),
      steady_advance = (\<lambda>_. 1), system_clock = (\<lambda>_. 0), rand = (\<lambda>_ _. 0)\<rparr>"

section \<open>Capability queries\<close>

text \<open>
  C5. For every handle, \<open>are_writes_durable()\<close> is true exactly when the caching mode is
  none, reads or reads_and_metadata: in particular true for reads and false for all. The
  answer does not depend on the flags or on the native handle, and the query is a total
  function to \<open>bool\<close>: it has no failing branch.
\<close>

theorem are_writes_durable_exact:
  "(are_writes_durable h \<longleftrightarrow>
      h_caching h \<in> {Caching_none, Caching_reads, Caching_reads_and_metadata})
   \<and> are_writes_durable (h\<lparr>h_caching := Caching_reads\<rparr>)
   \<and> \<not> are_writes_durable (h\<lparr>h_caching := Caching_all\<rparr>)
   \<and> are_writes_durable (h\<lparr>h_flags := f, h_v := v\<rparr>) = are_writes_durable h"
  by (simp add: are_writes_durable_def)

text \<open>
  C6. For every handle, \<open>are_safety_fsyncs_issued()\<close> is true if and only if the
  \<open>disable_safety_fsyncs\<close> bit of the flags is clear and bit 0 of the caching mode's code
  is 1, that is the caching mode is none, reads, reads_and_metadata or safety_fsyncs; with
  the flag set the answer is false whatever the caching mode.
\<close>

theorem are_safety_fsyncs_issued_exact:
  "(are_safety_fsyncs_issued h \<longleftrightarrow>
      \<not> bit (h_flags h) 2 \<and> bit (caching_code (h_caching h)) 0)
   \<and> (bit (caching_code (h_caching h)) 0 \<longleftrightarrow>
        h_caching h \<in> {Caching_none, Caching_reads, Caching_reads_and_metadata,
                        Caching_safety_fsyncs})
   \<and> are_safety_fsyncs_issued (h\<lparr>h_flags := fl OR disable_safety_fsyncs, h_caching := c\<rparr>)
       = False"
proof -
  have flag_bit: "(x AND disable_safety_fsyncs = 0) \<longleftrightarrow> \<not> bit x 2" for x :: flag
    unfolding disable_safety_fsyncs_def
    by (simp only: bit_iff_and_push_bit_not_eq_0 [of x 2] simp_thms)
  have low_bit: "((ucast (caching_code c') :: 32 word) AND 1 \<noteq> 0) \<longleftrightarrow> bit (caching_code c') 0"
    for c'
    by (cases c') (simp_all add: bit_0)
  have modes: "bit (caching_code c') 0 \<longleftrightarrow>
      c' \<in> {Caching_none, Caching_reads, Caching_reads_and_metadata, Caching_safety_fsyncs}"
    for c'
    by (cases c') (simp_all add: bit_0)
  have set_bit: "bit (y OR disable_safety_fsyncs) 2" for y :: flag
    unfolding disable_safety_fsyncs_def
    by (simp only: bit_or_iff bit_push_bit_iff) simp
  show ?thesis
    unfolding are_safety_fsyncs_issued_def flag_bit low_bit
    using modes [of "h_caching h"] set_bit [of fl] by simp
qed

section \<open>Bytes transferred\<close>

lemma add_transferred_sum:
  "add_transferred acc buffers = acc + sum_list (map snd buffers)"
  by (induction buffers arbitrary: acc) (simp_all add: add.assoc)

lemma unat_sum_list_word:
  "unat (sum_list (ls :: size_type list)) = sum_list (map unat ls) mod 2 ^ 64"
proof (induction ls)
  case Nil
  show ?case by simp
next
  case (Cons x xs)
  have "unat (x + sum_list xs) = (unat x + unat (sum_list xs)) mod 2 ^ 64"
    by (simp add: unat_word_ariths)
  also have "\<dots> = (unat x + sum_list (map unat xs) mod 2 ^ 64) mod 2 ^ 64"
    by (simp only: Cons.IH)
  also have "\<dots> = (unat x + sum_list (map unat xs)) mod 2 ^ 64"
    by (rule mod_add_right_eq)
  finally show ?case by simp
qed

text \<open>
  C9, as the code has it. On an io_result that carries a buffer list, the first call of
  \<open>bytes_transferred()\<close> returns the sum of the lengths of all the buffers, in \<open>size_type\<close>
  arithmetic (modulo \<open>2 ^ 64\<close>), and stores it. Unless that sum is \<open>2 ^ 64 - 1\<close>, the value
  that marks "not computed yet", every later call returns the stored sum without reading
  the buffer list: it returns it whatever the buffer list holds by then. If the sum is
  \<open>2 ^ 64 - 1\<close>, the call leaves the io_result as a constructor does, and the next call
  is a first call again.
\<close>

theorem bytes_transferred_cached:
  "bytes_transferred (make_io_result (Result_value buffers))
     = Some (sum_list (map snd buffers),
             \<lparr>base = Result_value buffers,
              bytes_transferred_cache = sum_list (map snd buffers)\<rparr>)
   \<and> unat (sum_list (map snd buffers)) = sum_list (map (unat \<circ> snd) buffers) mod 2 ^ 64
   \<and> (sum_list (map snd buffers) \<noteq> - 1 \<longrightarrow>
        bytes_transferred
          \<lparr>base = later, bytes_transferred_cache = sum_list (map snd buffers)\<rparr>
        = Some (sum_list (map snd buffers),
                \<lparr>base = later, bytes_transferred_cache = sum_list (map snd buffers)\<rparr>))"
  using unat_sum_list_word [of "map snd buffers"]
  by (simp add: bytes_transferred_def make_io_result_def add_transferred_sum comp_def Let_def)

theorem bytes_transferred_cached_witness:
  "bytes_transferred (make_io_result (Result_value [(0, 2), (8, 3)]))
     = Some (5, \<lparr>base = Result_value [(0, 2), (8, 3)], bytes_transferred_cache = 5\<rparr>)
   \<and> (5 :: size_type) \<noteq> - 1
   \<and> bytes_transferred \<lparr>base = Result_value [(0, 7)], bytes_transferred_cache = 5\<rparr>
     = Some (5, \<lparr>base = Result_value [(0, 7)], bytes_transferred_cache = 5\<rparr>)"
  using bytes_transferred_cached [of "[(0, 2), (8, 3)]" "Result_value [(0, 7)]"]
  by simp

text \<open>
  C9, as stated, fails where the lengths add up to \<open>2 ^ 64 - 1\<close>: the first call returns
  that sum and leaves the member equal to the "not computed yet" mark, so the second call
  on the same io_result runs the loop again. It shows when the length in the buffer list
  has been changed in between, here to 5: the second call returns the new sum, not the
  first one.
\<close>

theorem bytes_transferred_recomputed_counterexample:
  "bytes_transferred (make_io_result (Result_value [(0, - 1)]))
     = Some (- 1, \<lparr>base = Result_value [(0, - 1)], bytes_transferred_cache = - 1\<rparr>)
   \<and> bytes_transferred
       ((snd (the (bytes_transferred (make_io_result (Result_value [(0, - 1)])))))
          \<lparr>base := Result_value [(0, 5)]\<rparr>)
     = Some (5, \<lparr>base = Result_value [(0, 5)], bytes_transferred_cache = 5\<rparr>)"
  by (simp add: bytes_transferred_def make_io_result_def Let_def)

section \<open>Extent guards\<close>

text \<open>
  C7. Move-constructing a guard from a guard gives the new guard the source's handle,
  offset, length and exclusive flag (so that destroying the new guard unlocks what
  destroying the source would have unlocked) and leaves the source invalid: handle none,
  offset 0, length 0, exclusive false. Destroying an invalid guard, whether moved-from,
  default-constructed or any other guard whose handle is none, makes no unlock call: the
  world, and with it the record of calls, is unchanged.
\<close>

theorem move_construct_transfers:
  "fst (move_construct g) = g
   \<and> destroy (fst (move_construct g)) w = destroy g w
   \<and> snd (move_construct g) = default_extent_guard
   \<and> g_h (snd (move_construct g)) = None
   \<and> g_offset (snd (move_construct g)) = 0
   \<and> g_length (snd (move_construct g)) = 0
   \<and> g_exclusive (snd (move_construct g)) = False
   \<and> \<not> guard_valid (snd (move_construct g))
   \<and> destroy (snd (move_construct g)) w = w
   \<and> destroy default_extent_guard w = w
   \<and> destroy (g\<lparr>g_h := None\<rparr>) w = w"
  by (auto simp: move_construct_def make_extent_guard_def release_def destroy_def
      unlock_def default_extent_guard_def guard_valid_def split: option.splits)

text \<open>
  C8. The first \<open>unlock()\<close> on a live guard calls \<open>io_handle::unlock(offset, length)\<close> on
  the guard's handle exactly once (one call is added to the record of calls) and clears
  the guard: handle none, offset 0, length 0. A second \<open>unlock()\<close>, or the destruction of
  the guard, then makes no further call.
\<close>

theorem unlock_idempotent:
  "unlock (make_extent_guard (Some h) off len ex) w
     = (default_extent_guard, io_unlock h off len w)
   \<and> trace (snd (unlock (make_extent_guard (Some h) off len ex) w))
     = trace w @ [Ev_unlock h off len]
   \<and> unlock (fst (unlock (make_extent_guard (Some h) off len ex) w)) w' 
     = (default_extent_guard, w')
   \<and> destroy (fst (unlock (make_extent_guard (Some h) off len ex) w)) w' = w'"
  by (simp add: unlock_def make_extent_guard_def release_def destroy_def
      default_extent_guard_def io_unlock_def)

text \<open>
  C10. Move-assigning the guard at \<open>src\<close> to the guard at \<open>dst\<close> first unlocks the
  extent \<open>dst\<close> holds, on \<open>dst\<close>'s handle, if \<open>dst\<close> is live (and makes no call otherwise),
  then gives \<open>dst\<close> the handle, offset, length and exclusive flag of \<open>src\<close>, and leaves
  \<open>src\<close> invalid; no other guard changes. The lock \<open>dst\<close> held is thereby released: its
  range is taken off the held ranges.
\<close>

theorem move_assign_releases_destination:
  "dst \<noteq> src \<Longrightarrow>
     fst (move_assign dst src s w) = s(dst := s src, src := default_extent_guard)
     \<and> snd (move_assign dst src s w) =
           (case g_h (s dst) of
              Some h \<Rightarrow> io_unlock h (g_offset (s dst)) (g_length (s dst)) w
            | None \<Rightarrow> w)
     \<and> (g_h (s dst) = Some h \<longrightarrow>
           trace (snd (move_assign dst src s w))
             = trace w @ [Ev_unlock h (g_offset (s dst)) (g_length (s dst))]
           \<and> held (snd (move_assign dst src s w))
             = remove1 (h, g_offset (s dst), g_length (s dst)) (held w))"
  by (auto simp: move_assign_def unlock_def release_def default_extent_guard_def
      make_extent_guard_def io_unlock_def fun_upd_twist split: option.splits)

theorem move_assign_releases_destination_witness:
  "(0::nat) \<noteq> 1
   \<and> fst (move_assign 0 1
         ((\<lambda>_. default_extent_guard)
            (0 := make_extent_guard (Some 7) 16 4 True,
             1 := make_extent_guard (Some 9) 32 1 False))
         \<lparr>trace = [], held = [(7, 16, 4), (9, 32, 1)], granted = [], steady_time = 0\<rparr>)
       = (\<lambda>_. default_extent_guard)(0 := make_extent_guard (Some 9) 32 1 False)
   \<and> trace (snd (move_assign 0 1
         ((\<lambda>_. default_extent_guard)
            (0 := make_extent_guard (Some 7) 16 4 True,
             1 := make_extent_guard (Some 9) 32 1 False))
         \<lparr>trace = [], held = [(7, 16, 4), (9, 32, 1)], granted = [], steady_time = 0\<rparr>))
       = [Ev_unlock 7 16 4]
   \<and> held (snd (move_assign 0 1
         ((\<lambda>_. default_extent_guard)
            (0 := make_extent_guard (Some 7) 16 4 True,
             1 := make_extent_guard (Some 9) 32 1 False))
         \<lparr>trace = [], held = [(7, 16, 4), (9, 32, 1)], granted = [], steady_time = 0\<rparr>))
       = [(9, 32, 1)]"
  using move_assign_releases_destination
    [of 0 1 "(\<lambda>_. default_extent_guard)
            (0 := make_extent_guard (Some 7) 16 4 True,
             1 := make_extent_guard (Some 9) 32 1 False)"
        "\<lparr>trace = [], held = [(7, 16, 4), (9, 32, 1)], granted = [], steady_time = 0\<rparr>" 7]
  by (auto simp: make_extent_guard_def default_extent_guard_def)

text \<open>
  Assigning a guard to itself unlocks what it holds and leaves it invalid: the fields it
  adopts are its own, already cleared by the unlock.
\<close>

lemma move_assign_self:
  "move_assign p p s w
     = (s(p := default_extent_guard), destroy (s p) w)"
  by (auto simp: move_assign_def unlock_def release_def default_extent_guard_def
      make_extent_guard_def destroy_def split: option.splits)

section \<open>The for loop, the rollback and the do loop of lock_files::_lock\<close>

lemma deadline_passed_frame:
  assumes "deadline_passed e d t w = (b, w1)"
  shows "held w1 = held w" and "granted w1 = granted w"
    and "\<exists>c. trace w1 = trace w @ c \<and> filter is_lock_request c = []"
  using assms
  by (auto simp: deadline_passed_def steady_clock_now_def system_clock_now_def Let_def
      split: if_splits)

lemma lock_each_unfold:
  assumes "n < entities_size es" and "deadline_passed e d t w = (b, w1)"
  shows "lock_each e h d t es n w =
     (if b then (Returned ETIMEDOUT, n, w1)
      else (case lock_answer e (length (trace w1)) of
              Lock_errored err \<Rightarrow>
                (Returned err, n, w1\<lparr>trace := trace w1 @ [lock_request h (es ! unat n)]\<rparr>)
            | Lock_declined \<Rightarrow>
                (Goto_failed, n, w1\<lparr>trace := trace w1 @ [lock_request h (es ! unat n)]\<rparr>)
            | Lock_granted \<Rightarrow>
                lock_each e h d t es (n + 1)
                  (w1\<lparr>granted := granted w1 @ [entity_range h (es ! unat n)],
                      trace := trace w1 @ [lock_request h (es ! unat n),
                                             unlock_call h (es ! unat n)]\<rparr>)))"
  using assms
  by (subst lock_each.simps)
     (simp add: io_lock_def Let_def lock_request_def unlock_call_def entity_range_def
       guard_valid_def default_extent_guard_def make_extent_guard_def destroy_def
       unlock_def io_unlock_def release_def
       split: lock_reply.splits)

lemma below_size:
  assumes "n < entities_size es"
  shows "unat n < length es" and "n \<noteq> - 1" and "unat (n + 1) = Suc (unat n)"
proof -
  from assms have "unat n < unat (entities_size es)"
    by (simp add: word_less_nat_alt)
  also have "unat (entities_size es) \<le> length es"
    by (simp add: entities_size_def unat_of_nat)
  finally show "unat n < length es" .
  from assms show ne: "n \<noteq> - 1"
    by (metis word_order.extremum_strict)
  then have "1 + n \<noteq> 0"
    by (metis add_eq_0_iff)
  then show "unat (n + 1) = Suc (unat n)"
    by (simp add: unatSuc add.commute)
qed

lemma lock_each_done:
  "\<not> n < entities_size es \<Longrightarrow> lock_each e h d t es n w = (Completed, n, w)"
  by (subst lock_each.simps) simp

lemma take_drop_step:
  assumes "m < length xs" and "Suc m \<le> j"
  shows "take (j - m) (drop m xs) = xs ! m # take (j - Suc m) (drop (Suc m) xs)"
proof -
  from assms(1) have "drop m xs = xs ! m # drop (Suc m) xs"
    by (simp add: Cons_nth_drop_Suc)
  moreover from assms(2) have "j - m = Suc (j - Suc m)"
    by simp
  ultimately show ?thesis
    by simp
qed

lemma lock_each_invariant:
  "lock_each e h d t es n w = (ex, n1, w') \<Longrightarrow>
     held w' = held w
     \<and> unat n \<le> unat n1
     \<and> (ex = Completed \<longleftrightarrow> \<not> n1 < entities_size es)
     \<and> granted w' = granted w @ map (entity_range h) (take (unat n1 - unat n) (drop (unat n) es))
     \<and> (\<exists>new k. trace w' = trace w @ new
           \<and> filter is_lock_request new = map (lock_request h) (take k (drop (unat n) es)))"
proof (induction "unat (entities_size es) - unat n" arbitrary: n w)
  case 0
  then have "\<not> n < entities_size es"
    by (simp add: word_less_nat_alt)
  with "0.prems" show ?case
    by (auto simp: lock_each_done intro: exI [of _ 0])
next
  case (Suc m)
  then have less: "n < entities_size es"
    by (simp add: word_less_nat_alt)
  note below = below_size [OF less]
  obtain b w1 where dp: "deadline_passed e d t w = (b, w1)"
    by (cases "deadline_passed e d t w")
  from deadline_passed_frame [OF dp] obtain c where
    frame: "held w1 = held w" "granted w1 = granted w" "trace w1 = trace w @ c"
      "filter is_lock_request c = []"
    by blast
  note unfold = lock_each_unfold [OF less dp, of h]
  show ?case
  proof (cases b)
    case True
    with unfold Suc.prems have "ex = Returned ETIMEDOUT" "n1 = n" "w' = w1"
      by simp_all
    with frame less show ?thesis
      by (auto intro: exI [of _ 0])
  next
    case False
    show ?thesis
    proof (cases "lock_answer e (length (trace w1))")
      case (Lock_errored err)
      with False unfold Suc.prems have
        "ex = Returned err" "n1 = n" "w' = w1\<lparr>trace := trace w1 @ [lock_request h (es ! unat n)]\<rparr>"
        by simp_all
      moreover have "take 1 (drop (unat n) es) = [es ! unat n]"
        using below(1) by (simp add: take_Suc_conv_app_nth Cons_nth_drop_Suc [symmetric])
      ultimately show ?thesis
        using frame less
        by (auto simp: lock_request_def intro!: exI [of _ "Suc 0"])
    next
      case Lock_declined
      with False unfold Suc.prems have
        "ex = Goto_failed" "n1 = n" "w' = w1\<lparr>trace := trace w1 @ [lock_request h (es ! unat n)]\<rparr>"
        by simp_all
      moreover have "take 1 (drop (unat n) es) = [es ! unat n]"
        using below(1) by (simp add: take_Suc_conv_app_nth Cons_nth_drop_Suc [symmetric])
      ultimately show ?thesis
        using frame less
        by (auto simp: lock_request_def intro!: exI [of _ "Suc 0"])
    next
      case Lock_granted
      define w2 where "w2 = w1\<lparr>granted := granted w1 @ [entity_range h (es ! unat n)],
          trace := trace w1 @ [lock_request h (es ! unat n), unlock_call h (es ! unat n)]\<rparr>"
      from Lock_granted False unfold Suc.prems
      have rec: "lock_each e h d t es (n + 1) w2 = (ex, n1, w')"
        by (simp add: w2_def)
      from Suc.hyps(2) below(3) have "m = unat (entities_size es) - unat (n + 1)"
        by simp
      from Suc.hyps(1) [OF this rec] obtain new k where
        ih: "held w' = held w2" "unat (n + 1) \<le> unat n1"
          "ex = Completed \<longleftrightarrow> \<not> n1 < entities_size es"
          "granted w' = granted w2
             @ map (entity_range h) (take (unat n1 - unat (n + 1)) (drop (unat (n + 1)) es))"
          "trace w' = trace w2 @ new"
          "filter is_lock_request new = map (lock_request h) (take k (drop (unat (n + 1)) es))"
        by blast
      from ih(2) below(3) have le: "Suc (unat n) \<le> unat n1"
        by simp
      have g: "granted w' = granted w
          @ map (entity_range h) (take (unat n1 - unat n) (drop (unat n) es))"
        using ih(4) frame(2) below(3) take_drop_step [OF below(1) le]
        by (simp add: w2_def)
      have tr: "trace w' = trace w
          @ (c @ [lock_request h (es ! unat n), unlock_call h (es ! unat n)] @ new)"
        using ih(5) frame(3) by (simp add: w2_def)
      have "drop (unat n) es = es ! unat n # drop (Suc (unat n)) es"
        using below(1) by (simp add: Cons_nth_drop_Suc)
      then have fl: "filter is_lock_request
            (c @ [lock_request h (es ! unat n), unlock_call h (es ! unat n)] @ new)
          = map (lock_request h) (take (Suc k) (drop (unat n) es))"
        using ih(6) frame(4) below(3)
        by (simp add: lock_request_def unlock_call_def)
      from ih(1) frame(1) have "held w' = held w"
        by (simp add: w2_def)
      moreover from le have "unat n \<le> unat n1"
        by simp
      ultimately show ?thesis
        using ih(3) g tr fl by blast
    qed
  qed
qed

lemma lock_files_unlock_trace:
  "trace (lock_files_unlock h xs w) = trace w @ map (unlock_call h) xs"
  by (induction xs arbitrary: w) (simp_all add: io_unlock_def unlock_call_def)

lemma lock_files_unlock_granted:
  "granted (lock_files_unlock h xs w) = granted w"
  by (induction xs arbitrary: w) (simp_all add: io_unlock_def)

lemma lock_files_unlock_held:
  "mset (held (lock_files_unlock h xs w)) \<subseteq># mset (held w)"
proof (induction xs arbitrary: w)
  case Nil
  show ?case by simp
next
  case (Cons i xs)
  have "mset (held (io_unlock h (e_value i) 1 w)) \<subseteq># mset (held w)"
    by (simp add: io_unlock_def)
  with Cons.IH [of "io_unlock h (e_value i) 1 w"] show ?case
    by (simp add: subset_mset.order_trans)
qed

lemma lock_files_unlock_append:
  "lock_files_unlock h (xs @ ys) w = lock_files_unlock h ys (lock_files_unlock h xs w)"
  by (induction xs arbitrary: w) simp_all

lemma undo_rollback:
  "n < entities_size es \<Longrightarrow>
     undo h es n w = Some (- 1, lock_files_unlock h (rev (take (Suc (unat n)) es)) w)"
proof (induction "unat n" arbitrary: n w)
  case 0
  then have n0: "n = 0"
    by (simp add: unat_eq_0)
  from below_size(1) [OF "0.prems"] n0 have "take (Suc 0) es = [es ! 0]"
    by (cases es) simp_all
  moreover have "undo h es (- 1) w' = Some (- 1, w')" for w'
    by (subst undo.simps) simp
  ultimately show ?case
    using below_size(1) [OF "0.prems"] n0
    by (subst undo.simps) simp
next
  case (Suc k)
  note below = below_size [OF Suc.prems]
  from Suc.hyps(2) have nz: "n \<noteq> 0"
    by auto
  then have pred: "unat (n - 1) = k"
    using Suc.hyps(2) by (simp add: unat_minus_one)
  have "n - 1 < n"
    using nz by (simp add: word_less_nat_alt unat_minus_one unat_gt_0)
  with Suc.prems have less': "n - 1 < entities_size es"
    by simp
  have "take (Suc (unat n)) es = take (unat n) es @ [es ! unat n]"
    using below(1) by (simp add: take_Suc_conv_app_nth)
  then have "lock_files_unlock h (rev (take (Suc (unat n)) es)) w
      = lock_files_unlock h (rev (take (unat n) es)) (io_unlock h (e_value (es ! unat n)) 1 w)"
    by simp
  moreover have "undo h es (n - 1) (io_unlock h (e_value (es ! unat n)) 1 w)
      = Some (- 1, lock_files_unlock h (rev (take (unat n) es))
                     (io_unlock h (e_value (es ! unat n)) 1 w))"
    using Suc.hyps(1) [OF pred [symmetric] less'] pred Suc.hyps(2) by simp
  ultimately show ?case
    using below(1,2) by (subst undo.simps) simp
qed

lemma mset_shuffle_from:
  "mset (shuffle_from r i xs) = mset xs"
proof (induction r i xs rule: shuffle_from.induct)
  case (1 r i xs)
  show ?case
  proof (cases "i < length xs")
    case True
    then have "r i mod Suc i < length xs"
      by (meson less_Suc_eq_le less_le_trans mod_less_divisor not_less zero_less_Suc le_less_trans)
    with True have "mset (xs[i := xs ! (r i mod Suc i), r i mod Suc i := xs ! i]) = mset xs"
      by (simp add: mset_swap)
    with True "1.IH" show ?thesis
      by (subst shuffle_from.simps) simp
  next
    case False
    then show ?thesis
      by (subst shuffle_from.simps) simp
  qed
qed

lemma lock_loop_single_pass:
  "lock_loop e h d t es n w =
     (case pass e h d t es n w of
        To_condition n' es' w' \<Rightarrow> Lock_ok es' w'
      | Return_error err es' w' \<Rightarrow> Lock_error err es' w'
      | Undefined_behaviour \<Rightarrow> Lock_undefined)"
  by (subst lock_loop.simps) (auto split: pass_exit.splits dest: pass_to_condition)


lemma start_clock_frame:
  assumes "start_clock e d w = (t, w1)"
  shows "\<exists>c. trace w1 = trace w @ c \<and> filter is_lock_request c = []"
  using assms
  by (auto simp: start_clock_def steady_clock_now_def Let_def split: if_splits)

lemma no_request_last:
  "filter is_lock_request c = [] \<Longrightarrow> \<not> ends_with_request c"
  by (auto simp: ends_with_request_def filter_empty_conv)

lemma lock_each_bound:
  "n \<le> entities_size es \<Longrightarrow> lock_each e h d t es n w = (ex, n1, w') \<Longrightarrow>
     n1 \<le> entities_size es"
proof (induction "unat (entities_size es) - unat n" arbitrary: n w)
  case 0
  then have "\<not> n < entities_size es"
    by (simp add: word_less_nat_alt)
  with "0.prems" show ?case
    by (simp add: lock_each_done)
next
  case (Suc m)
  then have less: "n < entities_size es"
    by (simp add: word_less_nat_alt)
  note below = below_size [OF less]
  obtain b w1 where dp: "deadline_passed e d t w = (b, w1)"
    by (cases "deadline_passed e d t w")
  note unfold = lock_each_unfold [OF less dp, of h]
  show ?case
  proof (cases "\<not> b \<and> lock_answer e (length (trace w1)) = Lock_granted")
    case False
    with unfold Suc.prems(2) have "n1 = n"
      by (cases b; cases "lock_answer e (length (trace w1))") simp_all
    with Suc.prems(1) show ?thesis
      by simp
  next
    case True
    from less have le: "n + 1 \<le> entities_size es"
      by (rule inc_le)
    from Suc.hyps(2) below(3) have m: "m = unat (entities_size es) - unat (n + 1)"
      by simp
    from True unfold Suc.prems(2) show ?thesis
      using Suc.hyps(1) [OF m le] by simp
  qed
qed

lemma lock_each_requests_exact:
  "lock_each e h d t es n w = (ex, n1, w') \<Longrightarrow>
     \<exists>new. trace w' = trace w @ new
       \<and> filter is_lock_request new
           = map (lock_request h)
               (take (unat n1 - unat n + (if ends_with_request new then 1 else 0))
                  (drop (unat n) es))
       \<and> (ex = Goto_failed \<longrightarrow> ends_with_request new)
       \<and> (ex = Completed \<longrightarrow> \<not> ends_with_request new)"
proof (induction "unat (entities_size es) - unat n" arbitrary: n w)
  case 0
  then have "\<not> n < entities_size es"
    by (simp add: word_less_nat_alt)
  with "0.prems" show ?case
    by (auto simp: lock_each_done ends_with_request_def)
next
  case (Suc m)
  then have less: "n < entities_size es"
    by (simp add: word_less_nat_alt)
  note below = below_size [OF less]
  obtain b w1 where dp: "deadline_passed e d t w = (b, w1)"
    by (cases "deadline_passed e d t w")
  from deadline_passed_frame(3) [OF dp] obtain c where
    frame: "trace w1 = trace w @ c" "filter is_lock_request c = []"
    by blast
  have one: "take (Suc 0) (drop (unat n) es) = [es ! unat n]"
    using below(1) by (simp add: Cons_nth_drop_Suc [symmetric])
  note unfold = lock_each_unfold [OF less dp, of h]
  show ?case
  proof (cases b)
    case True
    with unfold Suc.prems have "ex = Returned ETIMEDOUT" "n1 = n" "w' = w1"
      by simp_all
    with frame no_request_last [OF frame(2)] show ?thesis
      by auto
  next
    case False
    show ?thesis
    proof (cases "lock_answer e (length (trace w1))")
      case (Lock_errored err)
      with False unfold Suc.prems have
        "ex = Returned err" "n1 = n"
        "trace w' = trace w @ (c @ [lock_request h (es ! unat n)])"
        by (simp_all add: frame(1))
      moreover have "ends_with_request (c @ [lock_request h (es ! unat n)])"
        by (simp add: ends_with_request_def lock_request_def)
      ultimately show ?thesis
        using frame(2) one by (auto simp: lock_request_def)
    next
      case Lock_declined
      with False unfold Suc.prems have
        "ex = Goto_failed" "n1 = n"
        "trace w' = trace w @ (c @ [lock_request h (es ! unat n)])"
        by (simp_all add: frame(1))
      moreover have "ends_with_request (c @ [lock_request h (es ! unat n)])"
        by (simp add: ends_with_request_def lock_request_def)
      ultimately show ?thesis
        using frame(2) one by (auto simp: lock_request_def)
    next
      case Lock_granted
      define w2 where "w2 = w1\<lparr>granted := granted w1 @ [entity_range h (es ! unat n)],
          trace := trace w1 @ [lock_request h (es ! unat n), unlock_call h (es ! unat n)]\<rparr>"
      from Lock_granted False unfold Suc.prems
      have rec: "lock_each e h d t es (n + 1) w2 = (ex, n1, w')"
        by (simp add: w2_def)
      from Suc.hyps(2) below(3) have "m = unat (entities_size es) - unat (n + 1)"
        by simp
      from Suc.hyps(1) [OF this rec] obtain new where
        ih: "trace w' = trace w2 @ new"
          "filter is_lock_request new
             = map (lock_request h)
                 (take (unat n1 - unat (n + 1) + (if ends_with_request new then 1 else 0))
                    (drop (unat (n + 1)) es))"
          "ex = Goto_failed \<longrightarrow> ends_with_request new"
          "ex = Completed \<longrightarrow> \<not> ends_with_request new"
        by blast
      from lock_each_invariant [OF rec] below(3) have le: "Suc (unat n) \<le> unat n1"
        by simp
      define pre where
        "pre = c @ [lock_request h (es ! unat n), unlock_call h (es ! unat n)]"
      have tr: "trace w' = trace w @ (pre @ new)"
        using ih(1) frame(1) by (simp add: w2_def pre_def)
      have ends: "ends_with_request (pre @ new) = ends_with_request new"
        by (cases "new = []") (simp_all add: ends_with_request_def pre_def unlock_call_def)
      have dr: "drop (unat n) es = es ! unat n # drop (Suc (unat n)) es"
        using below(1) by (simp add: Cons_nth_drop_Suc)
      have cnt: "unat n1 - unat n + k = Suc (unat n1 - Suc (unat n) + k)" for k
        using le by simp
      have "filter is_lock_request (pre @ new)
          = lock_request h (es ! unat n) # filter is_lock_request new"
        using frame(2) by (simp add: pre_def lock_request_def unlock_call_def)
      then have fl: "filter is_lock_request (pre @ new)
          = map (lock_request h)
              (take (unat n1 - unat n + (if ends_with_request (pre @ new) then 1 else 0))
                 (drop (unat n) es))"
        using ih(2) below(3) by (simp only: ends cnt dr take_Suc_Cons list.map)
      from tr fl ih(3,4) ends show ?thesis
        by blast
    qed
  qed
qed

text \<open>
  What the Undoer does. Take a pass whose lock file opened and whose for loop was left
  at position \<open>n1\<close> by \<^verbatim>\<open>goto failed\<close> or by a return. The Undoer then is
  \<open>lock_files::unlock\<close> on the entities at positions \<open>n1, n1 - 1, ..., 0\<close>: its first
  unlock call is for the entity at \<open>n1\<close>, whose lock the pass did not acquire.
\<close>

lemma rollback_of_failed_pass:
  assumes opened: "file_reply e (length (trace w)) = None"
    and run: "lock_each e h d t es 0 (snd (file_handle_file e w)) = (ex, n1, w2)"
    and failed: "ex \<noteq> Completed"
  defines "rolled \<equiv> lock_files_unlock h (rev (take (Suc (unat n1)) es)) (close_file w2)"
  shows "unat n1 < length es"
    and "granted w2 = granted w @ map (\<lambda>i. (h, e_value i, 1)) (take (unat n1) es)"
    and "held w2 = held w"
    and "undo h es n1 (close_file w2) = Some (- 1, rolled)"
    and "trace rolled
           = trace w2 @ Ev_file_close # Ev_unlock h (e_value (es ! unat n1)) 1
               # map (\<lambda>i. Ev_unlock h (e_value i) 1) (rev (take (unat n1) es))"
    and "granted rolled = granted w2"
    and "mset (held rolled) \<subseteq># mset (held w)"
    and "pass e h d t es n w =
           (case ex of
              Returned err \<Rightarrow> Return_error err es rolled
            | Goto_failed \<Rightarrow>
                To_condition (- 1) (fst (random_shuffle e es rolled))
                  (rolled\<lparr>trace := trace rolled @ [Ev_random_shuffle, Ev_yield]\<rparr>)
            | Completed \<Rightarrow> To_condition n1 es (close_file w2))"
proof -
  define w1 where "w1 = snd (file_handle_file e w)"
  from opened have opened_file: "file_handle_file e w = (None, w1)"
    by (simp add: w1_def file_handle_file_def)
  have w1: "held w1 = held w" "granted w1 = granted w"
    by (simp_all add: w1_def file_handle_file_def)
  from lock_each_invariant [OF run [folded w1_def]] failed
  have inv: "held w2 = held w1" "n1 < entities_size es"
    "granted w2 = granted w1 @ map (entity_range h) (take (unat n1) es)"
    by simp_all
  note below = below_size [OF inv(2)]
  from below(1) show "unat n1 < length es" .
  from inv(3) w1(2)
  show "granted w2 = granted w @ map (\<lambda>i. (h, e_value i, 1)) (take (unat n1) es)"
    by (simp add: entity_range_def [abs_def])
  from inv(1) w1(1) show "held w2 = held w"
    by simp
  show undo: "undo h es n1 (close_file w2) = Some (- 1, rolled)"
    unfolding rolled_def by (rule undo_rollback [OF inv(2)])
  have "take (Suc (unat n1)) es = take (unat n1) es @ [es ! unat n1]"
    using below(1) by (simp add: take_Suc_conv_app_nth)
  then show "trace rolled
      = trace w2 @ Ev_file_close # Ev_unlock h (e_value (es ! unat n1)) 1
          # map (\<lambda>i. Ev_unlock h (e_value i) 1) (rev (take (unat n1) es))"
    by (simp add: rolled_def lock_files_unlock_trace close_file_def unlock_call_def [abs_def]
        io_unlock_def)
  show "granted rolled = granted w2"
    by (simp add: rolled_def lock_files_unlock_granted close_file_def)
  have "mset (held rolled) \<subseteq># mset (held (close_file w2))"
    unfolding rolled_def by (rule lock_files_unlock_held)
  then show "mset (held rolled) \<subseteq># mset (held w)"
    using inv(1) w1(1) by (simp add: close_file_def)
  show "pass e h d t es n w =
      (case ex of
         Returned err \<Rightarrow> Return_error err es rolled
       | Goto_failed \<Rightarrow>
           To_condition (- 1) (fst (random_shuffle e es rolled))
             (rolled\<lparr>trace := trace rolled @ [Ev_random_shuffle, Ev_yield]\<rparr>)
       | Completed \<Rightarrow> To_condition n1 es (close_file w2))"
    using opened_file run [folded w1_def] undo
    by (simp add: pass_def random_shuffle_def yield_def split: for_exit.splits)
qed

lemma pass_after_loop:
  assumes opened: "file_reply e (length (trace w)) = None"
    and run: "lock_each e h d t es 0 (snd (file_handle_file e w)) = (ex, n1, w2)"
  shows "\<exists>n' es' w' after.
           (pass e h d t es n w = To_condition n' es' w'
              \<or> (\<exists>err. pass e h d t es n w = Return_error err es' w'))
           \<and> trace w' = trace w2 @ after \<and> filter is_lock_request after = []"
proof (cases "ex = Completed")
  case True
  define w1 where "w1 = snd (file_handle_file e w)"
  from opened have "file_handle_file e w = (None, w1)"
    by (simp add: w1_def file_handle_file_def)
  with run [folded w1_def] True have "pass e h d t es n w = To_condition n1 es (close_file w2)"
    by (simp add: pass_def)
  moreover have "trace (close_file w2) = trace w2 @ [Ev_file_close]"
    "filter is_lock_request [Ev_file_close] = []"
    by (simp_all add: close_file_def)
  ultimately show ?thesis
    by blast
next
  case False
  define rolled where
    "rolled = lock_files_unlock h (rev (take (Suc (unat n1)) es)) (close_file w2)"
  define undone where "undone = Ev_file_close # Ev_unlock h (e_value (es ! unat n1)) 1
      # map (\<lambda>i. Ev_unlock h (e_value i) 1) (rev (take (unat n1) es))"
  have tr: "trace rolled = trace w2 @ undone"
    unfolding rolled_def undone_def by (rule rollback_of_failed_pass(5) [OF opened run False])
  have pass: "pass e h d t es n w =
      (case ex of
         Returned err \<Rightarrow> Return_error err es rolled
       | Goto_failed \<Rightarrow>
           To_condition (- 1) (fst (random_shuffle e es rolled))
             (rolled\<lparr>trace := trace rolled @ [Ev_random_shuffle, Ev_yield]\<rparr>)
       | Completed \<Rightarrow> To_condition n1 es (close_file w2))"
    unfolding rolled_def by (rule rollback_of_failed_pass(8) [OF opened run False])
  have quiet: "filter is_lock_request undone = []"
    by (simp add: undone_def filter_empty_conv)
  show ?thesis
  proof (cases ex)
    case Completed
    with False show ?thesis by simp
  next
    case Goto_failed
    with pass have "pass e h d t es n w =
        To_condition (- 1) (fst (random_shuffle e es rolled))
          (rolled\<lparr>trace := trace rolled @ [Ev_random_shuffle, Ev_yield]\<rparr>)"
      by simp
    moreover have "trace (rolled\<lparr>trace := trace rolled @ [Ev_random_shuffle, Ev_yield]\<rparr>)
        = trace w2 @ (undone @ [Ev_random_shuffle, Ev_yield])"
      "filter is_lock_request (undone @ [Ev_random_shuffle, Ev_yield]) = []"
      using tr quiet by simp_all
    ultimately show ?thesis
      by blast
  next
    case (Returned err)
    with pass have "pass e h d t es n w = Return_error err es rolled"
      by simp
    with tr quiet show ?thesis
      by blast
  qed
qed

text \<open>
  Evaluation of the definitions on concrete inputs unfolds these.
\<close>

lemmas run_defs =
  example_env_def example_entities_def example_world_def
  lock_files_lock_def start_clock_def lock_loop_single_pass pass_def
  file_handle_file_def close_file_def entities_size_def deadline_passed_def
  steady_clock_now_def system_clock_now_def io_lock_def Let_def
  guard_valid_def make_extent_guard_def default_extent_guard_def destroy_def
  unlock_def release_def io_unlock_def random_shuffle_def yield_def deadline_zero_def

section \<open>The lock requests of a pass\<close>

text \<open>
  C1. At every position \<open>n\<close> that the for loop of a pass reaches with the deadline not
  passed, the next call is the lock request for the entity at \<open>n\<close> of the sequence in
  its current order: the byte range of length 1 at the offset that is the entity's id,
  with the entity's exclusive flag and the zero-duration deadline (for every entity, so
  also for those after the first success). Over a whole pass whose lock file opened and
  whose for loop was left at position \<open>n1\<close>, the lock requests are exactly those for
  the entities at positions \<open>0, ..., n1 - 1\<close>, in the order of the sequence, and then
  the one for position \<open>n1\<close> when the loop was left on the answer to a request, as it
  is by \<^verbatim>\<open>goto failed\<close>. A loop that ran to its end has \<open>n1\<close> at the size and has
  requested every entity. The call of \<open>_lock\<close> returns, and its lock requests are
  those of this pass and no others.
\<close>

theorem lock_requests_in_order:
  "(n < entities_size es \<and> deadline_passed e d t wr = (False, wr1) \<longrightarrow>
      (\<exists>rest. trace (snd (snd (lock_each e h d t es n wr)))
         = trace wr1
             @ Ev_lock h (e_value (es ! unat n)) 1 (e_exclusive (es ! unat n)) deadline_zero
             # rest))
   \<and> (start_clock e d w = (t, w0) \<and> file_reply e (length (trace w0)) = None
        \<and> lock_each e h d t es 0 (snd (file_handle_file e w0)) = (ex, n1, w2) \<longrightarrow>
      (\<exists>new all es' w'.
         trace w2 = trace w0 @ Ev_file_open # new
         \<and> filter is_lock_request new
             = map (\<lambda>i. Ev_lock h (e_value i) 1 (e_exclusive i) deadline_zero)
                 (take (unat n1 + (if ends_with_request new then 1 else 0)) es)
         \<and> unat n1 \<le> length es
         \<and> (ex = Completed \<longleftrightarrow> n1 = entities_size es)
         \<and> (ex = Completed \<longrightarrow> \<not> ends_with_request new)
         \<and> (ex = Goto_failed \<longrightarrow> ends_with_request new)
         \<and> (ex = Completed \<and> length es < 2 ^ 64 \<longrightarrow>
               filter is_lock_request new
                 = map (\<lambda>i. Ev_lock h (e_value i) 1 (e_exclusive i) deadline_zero) es)
         \<and> (lock_files_lock e h d es n0 w = Lock_ok es' w'
              \<or> (\<exists>err. lock_files_lock e h d es n0 w = Lock_error err es' w'))
         \<and> trace w' = trace w @ all
         \<and> filter is_lock_request all = filter is_lock_request new))"
proof (intro conjI impI; (elim conjE)?)
  assume less: "n < entities_size es" and dp: "deadline_passed e d t wr = (False, wr1)"
  note unfold = lock_each_unfold [OF less dp, of h]
  show "\<exists>rest. trace (snd (snd (lock_each e h d t es n wr)))
      = trace wr1
          @ Ev_lock h (e_value (es ! unat n)) 1 (e_exclusive (es ! unat n)) deadline_zero
          # rest"
  proof (cases "lock_answer e (length (trace wr1))")
    case (Lock_errored err)
    with unfold show ?thesis
      by (simp add: lock_request_def)
  next
    case Lock_declined
    with unfold show ?thesis
      by (simp add: lock_request_def)
  next
    case Lock_granted
    define wg where "wg = wr1\<lparr>granted := granted wr1 @ [entity_range h (es ! unat n)],
        trace := trace wr1 @ [lock_request h (es ! unat n), unlock_call h (es ! unat n)]\<rparr>"
    obtain ex' n' w' where rec: "lock_each e h d t es (n + 1) wg = (ex', n', w')"
      by (cases "lock_each e h d t es (n + 1) wg")
    from lock_each_invariant [OF rec] obtain new where "trace w' = trace wg @ new"
      by blast
    then have "trace w' = trace wr1 @ lock_request h (es ! unat n)
        # (unlock_call h (es ! unat n) # new)"
      by (simp add: wg_def)
    with Lock_granted unfold rec show ?thesis
      by (simp add: wg_def lock_request_def)
  qed
next
  assume start: "start_clock e d w = (t, w0)"
    and opened: "file_reply e (length (trace w0)) = None"
    and run: "lock_each e h d t es 0 (snd (file_handle_file e w0)) = (ex, n1, w2)"
  from start_clock_frame [OF start] obtain c where
    c: "trace w0 = trace w @ c" "filter is_lock_request c = []"
    by blast
  from lock_each_requests_exact [OF run] obtain new where
    new: "trace w2 = trace w0 @ Ev_file_open # new"
      "filter is_lock_request new
         = map (lock_request h) (take (unat n1 + (if ends_with_request new then 1 else 0)) es)"
      "ex = Goto_failed \<longrightarrow> ends_with_request new"
      "ex = Completed \<longrightarrow> \<not> ends_with_request new"
    by (auto simp: file_handle_file_def)
  have "n1 \<le> entities_size es"
    by (rule lock_each_bound [OF _ run]) simp
  then have n1: "unat n1 \<le> unat (entities_size es)"
    by (simp add: word_le_nat_alt)
  have size: "unat (entities_size es) \<le> length es"
    by (simp add: entities_size_def unat_of_nat)
  from lock_each_invariant [OF run] have "ex = Completed \<longleftrightarrow> \<not> n1 < entities_size es"
    by simp
  with \<open>n1 \<le> entities_size es\<close> have completed: "ex = Completed \<longleftrightarrow> n1 = entities_size es"
    by auto
  have full: "filter is_lock_request new = map (lock_request h) es"
    if "ex = Completed" and "length es < 2 ^ 64"
  proof -
    have "unat (entities_size es) = length es mod 2 ^ 64"
      unfolding entities_size_def by (simp only: unat_of_nat) simp
    with that(2) have "unat (entities_size es) = length es"
      by simp
    with that(1) completed new(2,4) show ?thesis
      by simp
  qed
  from pass_after_loop [OF opened run, of n0] obtain n' es' w' after where
    pass: "pass e h d t es n0 w0 = To_condition n' es' w'
        \<or> (\<exists>err. pass e h d t es n0 w0 = Return_error err es' w')"
    and after: "trace w' = trace w2 @ after" "filter is_lock_request after = []"
    by blast
  from pass have whole: "lock_files_lock e h d es n0 w = Lock_ok es' w'
      \<or> (\<exists>err. lock_files_lock e h d es n0 w = Lock_error err es' w')"
    by (auto simp: lock_files_lock_def start lock_loop_single_pass)
  have all: "trace w' = trace w @ (c @ Ev_file_open # new @ after)"
    "filter is_lock_request (c @ Ev_file_open # new @ after) = filter is_lock_request new"
    using after new(1) c by simp_all
  from new n1 size completed full whole all
  have "trace w2 = trace w0 @ Ev_file_open # new
         \<and> filter is_lock_request new
             = map (\<lambda>i. Ev_lock h (e_value i) 1 (e_exclusive i) deadline_zero)
                 (take (unat n1 + (if ends_with_request new then 1 else 0)) es)
         \<and> unat n1 \<le> length es
         \<and> (ex = Completed \<longleftrightarrow> n1 = entities_size es)
         \<and> (ex = Completed \<longrightarrow> \<not> ends_with_request new)
         \<and> (ex = Goto_failed \<longrightarrow> ends_with_request new)
         \<and> (ex = Completed \<and> length es < 2 ^ 64 \<longrightarrow>
               filter is_lock_request new
                 = map (\<lambda>i. Ev_lock h (e_value i) 1 (e_exclusive i) deadline_zero) es)
         \<and> (lock_files_lock e h d es n0 w = Lock_ok es' w'
              \<or> (\<exists>err. lock_files_lock e h d es n0 w = Lock_error err es' w'))
         \<and> trace w' = trace w @ (c @ Ev_file_open # new @ after)
         \<and> filter is_lock_request (c @ Ev_file_open # new @ after) = filter is_lock_request new"
    unfolding lock_request_def [abs_def] by simp
  then show "\<exists>new all es' w'.
         trace w2 = trace w0 @ Ev_file_open # new
         \<and> filter is_lock_request new
             = map (\<lambda>i. Ev_lock h (e_value i) 1 (e_exclusive i) deadline_zero)
                 (take (unat n1 + (if ends_with_request new then 1 else 0)) es)
         \<and> unat n1 \<le> length es
         \<and> (ex = Completed \<longleftrightarrow> n1 = entities_size es)
         \<and> (ex = Completed \<longrightarrow> \<not> ends_with_request new)
         \<and> (ex = Goto_failed \<longrightarrow> ends_with_request new)
         \<and> (ex = Completed \<and> length es < 2 ^ 64 \<longrightarrow>
               filter is_lock_request new
                 = map (\<lambda>i. Ev_lock h (e_value i) 1 (e_exclusive i) deadline_zero) es)
         \<and> (lock_files_lock e h d es n0 w = Lock_ok es' w'
              \<or> (\<exists>err. lock_files_lock e h d es n0 w = Lock_error err es' w'))
         \<and> trace w' = trace w @ all
         \<and> filter is_lock_request all = filter is_lock_request new"
    by blast
qed

theorem lock_requests_in_order_witness:
  "0 < entities_size example_entities
   \<and> deadline_passed (example_env 4) Deadline_none (0, 0)
         (snd (file_handle_file (example_env 4) example_world))
       = (False, snd (file_handle_file (example_env 4) example_world))
   \<and> (\<exists>rest. trace (snd (snd (lock_each (example_env 4) 7 Deadline_none (0, 0)
                 example_entities 0 (snd (file_handle_file (example_env 4) example_world)))))
         = [Ev_file_open, Ev_lock 7 1 1 True deadline_zero] @ rest)
   \<and> start_clock (example_env 4) Deadline_none example_world = ((0, 0), example_world)
   \<and> file_reply (example_env 4) (length (trace example_world)) = None
   \<and> lock_each (example_env 4) 7 Deadline_none (0, 0) example_entities 0
         (snd (file_handle_file (example_env 4) example_world))
       = (Goto_failed, 2,
          \<lparr>trace = [Ev_file_open, Ev_lock 7 1 1 True deadline_zero, Ev_unlock 7 1 1,
                    Ev_lock 7 2 1 False deadline_zero, Ev_unlock 7 2 1,
                    Ev_lock 7 3 1 True deadline_zero],
           held = [], granted = [(7, 1, 1), (7, 2, 1)], steady_time = 0\<rparr>)
   \<and> (\<exists>all es' w'.
         (lock_files_lock (example_env 4) 7 Deadline_none example_entities 99 example_world
            = Lock_ok es' w'
          \<or> (\<exists>err. lock_files_lock (example_env 4) 7 Deadline_none example_entities 99
                      example_world = Lock_error err es' w'))
         \<and> trace w' = trace example_world @ all
         \<and> filter is_lock_request all
             = [Ev_lock 7 1 1 True deadline_zero, Ev_lock 7 2 1 False deadline_zero,
                Ev_lock 7 3 1 True deadline_zero])"
proof -
  define w1 where "w1 = snd (file_handle_file (example_env 4) example_world)"
  define w2 where "w2 =
      \<lparr>trace = [Ev_file_open, Ev_lock 7 1 1 True deadline_zero, Ev_unlock 7 1 1,
                Ev_lock 7 2 1 False deadline_zero, Ev_unlock 7 2 1,
                Ev_lock 7 3 1 True deadline_zero],
       held = [], granted = [(7, 1, 1), (7, 2, 1)], steady_time = 0\<rparr>"
  have less: "0 < entities_size example_entities"
    by (simp add: entities_size_def example_entities_def)
  have dp: "deadline_passed (example_env 4) Deadline_none (0, 0) w1 = (False, w1)"
    by (simp add: deadline_passed_def)
  have start: "start_clock (example_env 4) Deadline_none example_world
      = ((0, 0), example_world)"
    by (simp add: start_clock_def)
  have opened: "file_reply (example_env 4) (length (trace example_world)) = None"
    by (simp add: example_env_def)
  have run: "lock_each (example_env 4) 7 Deadline_none (0, 0) example_entities 0 w1
      = (Goto_failed, 2, w2)"
    unfolding w1_def w2_def by (simp add: lock_each.simps run_defs)
  note inst = lock_requests_in_order
    [of 0 example_entities "example_env 4" Deadline_none "(0, 0)" w1 w1 7 example_world
        example_world Goto_failed 2 w2 99]
  from inst less dp have "\<exists>rest. trace (snd (snd (lock_each (example_env 4) 7 Deadline_none
        (0, 0) example_entities 0 w1)))
      = trace w1
          @ Ev_lock 7 (e_value (example_entities ! unat (0 :: 64 word))) 1
              (e_exclusive (example_entities ! unat (0 :: 64 word))) deadline_zero
          # rest"
    by blast
  then have first: "\<exists>rest. trace (snd (snd (lock_each (example_env 4) 7 Deadline_none
        (0, 0) example_entities 0 w1)))
      = [Ev_file_open, Ev_lock 7 1 1 True deadline_zero] @ rest"
    by (simp add: w1_def file_handle_file_def example_world_def example_entities_def)
  from inst start opened run obtain new all es' w' where
    b: "filter is_lock_request new
         = map (\<lambda>i. Ev_lock 7 (e_value i) 1 (e_exclusive i) deadline_zero)
             (take (unat (2 :: 64 word) + (if ends_with_request new then 1 else 0))
                example_entities)"
      "Goto_failed = Goto_failed \<longrightarrow> ends_with_request new"
      "lock_files_lock (example_env 4) 7 Deadline_none example_entities 99 example_world
         = Lock_ok es' w'
       \<or> (\<exists>err. lock_files_lock (example_env 4) 7 Deadline_none example_entities 99
                   example_world = Lock_error err es' w')"
      "trace w' = trace example_world @ all"
      "filter is_lock_request all = filter is_lock_request new"
    unfolding w1_def by blast
  from b(1,2,5) have "filter is_lock_request all
      = [Ev_lock 7 1 1 True deadline_zero, Ev_lock 7 2 1 False deadline_zero,
         Ev_lock 7 3 1 True deadline_zero]"
    by (simp add: example_entities_def)
  with b(3,4) have whole: "\<exists>all es' w'.
         (lock_files_lock (example_env 4) 7 Deadline_none example_entities 99 example_world
            = Lock_ok es' w'
          \<or> (\<exists>err. lock_files_lock (example_env 4) 7 Deadline_none example_entities 99
                      example_world = Lock_error err es' w'))
         \<and> trace w' = trace example_world @ all
         \<and> filter is_lock_request all
             = [Ev_lock 7 1 1 True deadline_zero, Ev_lock 7 2 1 False deadline_zero,
                Ev_lock 7 3 1 True deadline_zero]"
    by blast
  from less dp first start opened run whole show ?thesis
    unfolding w1_def w2_def by blast
qed

section \<open>A pass that does not complete\<close>

text \<open>
  C2, at two inputs. Three entities and no deadline, the locks of the first two granted
  and that of the third declined; and the same entities with every lock granted and a
  deadline that has passed when the third round begins. In both, the lock of entity 1
  is unlocked before the lock of entity 2 is requested, and that of entity 2 before the
  third round: each by its guard, at the end of the round that acquired it. The locks
  of the pass are thus released in the order of their acquisition, not in reverse, and
  not by the unwinding: when the for loop is left the caller holds nothing. The Undoer
  then calls unlock for entity 3, whose lock the pass never acquired, and for entities
  2 and 1, whose locks are no longer held.
\<close>

theorem failed_pass_releases_in_acquisition_order:
  "lock_each (example_env 4) 7 Deadline_none (0, 0) example_entities 0
       (snd (file_handle_file (example_env 4) example_world))
     = (Goto_failed, 2,
        \<lparr>trace = [Ev_file_open, Ev_lock 7 1 1 True deadline_zero, Ev_unlock 7 1 1,
                  Ev_lock 7 2 1 False deadline_zero, Ev_unlock 7 2 1,
                  Ev_lock 7 3 1 True deadline_zero],
         held = [], granted = [(7, 1, 1), (7, 2, 1)], steady_time = 0\<rparr>)
   \<and> pass (example_env 4) 7 Deadline_none (0, 0) example_entities 99 example_world
     = To_condition (- 1)
         [\<lparr>e_value = 3, e_exclusive = True\<rparr>, \<lparr>e_value = 1, e_exclusive = True\<rparr>,
          \<lparr>e_value = 2, e_exclusive = False\<rparr>]
         \<lparr>trace = [Ev_file_open, Ev_lock 7 1 1 True deadline_zero, Ev_unlock 7 1 1,
                   Ev_lock 7 2 1 False deadline_zero, Ev_unlock 7 2 1,
                   Ev_lock 7 3 1 True deadline_zero, Ev_file_close,
                   Ev_unlock 7 3 1, Ev_unlock 7 2 1, Ev_unlock 7 1 1,
                   Ev_random_shuffle, Ev_yield],
          held = [], granted = [(7, 1, 1), (7, 2, 1)], steady_time = 0\<rparr>
   \<and> lock_files_lock (example_env 100) 7 (Deadline_steady 3) example_entities 99 example_world
     = Lock_error ETIMEDOUT example_entities
         \<lparr>trace = [Ev_steady_now, Ev_file_open,
                   Ev_steady_now, Ev_lock 7 1 1 True deadline_zero, Ev_unlock 7 1 1,
                   Ev_steady_now, Ev_lock 7 2 1 False deadline_zero, Ev_unlock 7 2 1,
                   Ev_steady_now, Ev_file_close,
                   Ev_unlock 7 3 1, Ev_unlock 7 2 1, Ev_unlock 7 1 1],
          held = [], granted = [(7, 1, 1), (7, 2, 1)], steady_time = 4\<rparr>"
  by (simp add: lock_each.simps undo.simps shuffle_from.simps run_defs)

section \<open>A zero deadline\<close>

lemma entities_size_pos:
  assumes "length (i # rest) < 2 ^ 64"
  shows "0 < entities_size (i # rest)"
proof -
  have "unat (entities_size (i # rest)) = length (i # rest) mod 2 ^ 64"
    unfolding entities_size_def by (simp only: unat_of_nat) simp
  also from assms have "\<dots> = length (i # rest)"
    by (rule mod_less)
  finally show ?thesis
    by (simp add: word_less_nat_alt)
qed

text \<open>
  C3. With a zero deadline, at least one entity, and a lock file that opens, \<open>_lock\<close>
  returns TimedOut at once: it reads the clock, opens the file, reads the clock again
  and finds the deadline passed, before any lock request and without any yield. This is
  so whatever the other parties hold, so in particular when one of them holds a
  requested entity exclusively. Nothing was granted to the caller, and the ranges the
  caller holds afterwards are among those it held before: no lock of this call is left.
\<close>

theorem zero_deadline_times_out:
  "length (i # rest) < 2 ^ 64 \<Longrightarrow>
   file_reply e (Suc (length (trace w))) = None \<Longrightarrow>
     lock_files_lock e h deadline_zero (i # rest) n0 w
       = Lock_error ETIMEDOUT (i # rest)
           (w\<lparr>trace := trace w @ [Ev_steady_now, Ev_file_open, Ev_steady_now, Ev_file_close,
                                   Ev_unlock h (e_value i) 1],
              held := remove1 (h, e_value i, 1) (held w),
              steady_time := steady_time w + steady_advance e (length (trace w))
                               + steady_advance e (Suc (Suc (length (trace w))))\<rparr>)"
proof -
  assume len: "length (i # rest) < 2 ^ 64"
    and opened: "file_reply e (Suc (length (trace w))) = None"
  define t0 where "t0 = steady_time w + steady_advance e (length (trace w))"
  define wa where "wa = w\<lparr>trace := trace w @ [Ev_steady_now], steady_time := t0\<rparr>"
  define wb where "wb = wa\<lparr>trace := trace wa @ [Ev_file_open]\<rparr>"
  define t1 where "t1 = t0 + steady_advance e (Suc (Suc (length (trace w))))"
  define wc where "wc = wb\<lparr>trace := trace wb @ [Ev_steady_now], steady_time := t1\<rparr>"
  have start: "start_clock e deadline_zero w = ((t0, 0), wa)"
    by (simp add: start_clock_def deadline_zero_def steady_clock_now_def Let_def t0_def wa_def)
  have opened_file: "file_handle_file e wa = (None, wb)"
    using opened by (simp add: file_handle_file_def wa_def wb_def)
  have passed: "deadline_passed e deadline_zero (t0, 0) wb = (True, wc)"
    by (simp add: deadline_passed_def deadline_zero_def steady_clock_now_def Let_def
        wa_def wb_def wc_def t1_def)
  note pos = entities_size_pos [OF len]
  from lock_each_unfold [OF pos passed]
  have run: "lock_each e h deadline_zero (t0, 0) (i # rest) 0 wb = (Returned ETIMEDOUT, 0, wc)"
    by simp
  from undo_rollback [OF pos]
  have undo: "undo h (i # rest) 0 (close_file wc)
      = Some (- 1, io_unlock h (e_value i) 1 (close_file wc))"
    by simp
  have "pass e h deadline_zero (t0, 0) (i # rest) n0 wa
      = Return_error ETIMEDOUT (i # rest) (io_unlock h (e_value i) 1 (close_file wc))"
    by (simp add: pass_def opened_file run undo)
  then have "lock_files_lock e h deadline_zero (i # rest) n0 w
      = Lock_error ETIMEDOUT (i # rest) (io_unlock h (e_value i) 1 (close_file wc))"
    by (simp add: lock_files_lock_def start lock_loop_single_pass)
  then show ?thesis
    by (simp add: io_unlock_def close_file_def wc_def wb_def wa_def t1_def t0_def)
qed

theorem zero_deadline_times_out_witness:
  "length example_entities < 2 ^ 64
   \<and> file_reply (example_env 0) (Suc (length (trace example_world))) = None
   \<and> lock_files_lock (example_env 0) 7 deadline_zero example_entities 99 example_world
       = Lock_error ETIMEDOUT example_entities
           \<lparr>trace = [Ev_steady_now, Ev_file_open, Ev_steady_now, Ev_file_close,
                     Ev_unlock 7 1 1],
            held = [], granted = [], steady_time = 2\<rparr>"
  using zero_deadline_times_out
    [of "\<lparr>e_value = 1, e_exclusive = True\<rparr>"
        "[\<lparr>e_value = 2, e_exclusive = False\<rparr>, \<lparr>e_value = 3, e_exclusive = True\<rparr>]"
        "example_env 0" example_world 7 99]
  by (simp add: example_entities_def example_env_def example_world_def)

section \<open>The retry loop\<close>

lemma pass_permutes:
  "pass e h d t es n w = To_condition n' es' w' \<Longrightarrow> mset es' = mset es"
  by (auto simp: pass_def random_shuffle_def mset_shuffle_from
      split: prod.splits option.splits for_exit.splits)


text \<open>
  C4, at three inputs, none with a deadline. An entity whose lock is declined (the lock
  call returns a guard that is not valid): the pass fails, is rolled back, the entities
  are shuffled and the thread yields, and then \<open>_lock\<close> returns success after this one
  pass, holding nothing (the rollback has left \<open>n\<close> at \<open>(size_t) -1\<close>, which is not
  below the size). The same entity when the lock call reports the refusal as a TimedOut
  error: \<open>_lock\<close> returns that error after this one pass, with no shuffle, yield or
  retry. Three entities whose locks are all granted: \<open>_lock\<close> returns success, and
  holds none of them, each guard having unlocked its range when the round of the for
  loop that acquired it ended.
\<close>

theorem lock_files_lock_gives_up_after_one_pass:
  "lock_files_lock (example_env 0) 7 Deadline_none [\<lparr>e_value = 1, e_exclusive = True\<rparr>] 99
       example_world
     = Lock_ok [\<lparr>e_value = 1, e_exclusive = True\<rparr>]
         \<lparr>trace = [Ev_file_open, Ev_lock 7 1 1 True deadline_zero, Ev_file_close,
                   Ev_unlock 7 1 1, Ev_random_shuffle, Ev_yield],
          held = [], granted = [], steady_time = 0\<rparr>
   \<and> lock_files_lock ((example_env 0)\<lparr>lock_answer := \<lambda>_. Lock_errored ETIMEDOUT\<rparr>) 7
         Deadline_none [\<lparr>e_value = 1, e_exclusive = True\<rparr>] 99 example_world
     = Lock_error ETIMEDOUT [\<lparr>e_value = 1, e_exclusive = True\<rparr>]
         \<lparr>trace = [Ev_file_open, Ev_lock 7 1 1 True deadline_zero, Ev_file_close,
                   Ev_unlock 7 1 1],
          held = [], granted = [], steady_time = 0\<rparr>
   \<and> lock_files_lock (example_env 100) 7 Deadline_none example_entities 99 example_world
     = Lock_ok example_entities
         \<lparr>trace = [Ev_file_open, Ev_lock 7 1 1 True deadline_zero, Ev_unlock 7 1 1,
                   Ev_lock 7 2 1 False deadline_zero, Ev_unlock 7 2 1,
                   Ev_lock 7 3 1 True deadline_zero, Ev_unlock 7 3 1, Ev_file_close],
          held = [], granted = [(7, 1, 1), (7, 2, 1), (7, 3, 1)], steady_time = 0\<rparr>"
  by (simp add: lock_each.simps undo.simps shuffle_from.simps run_defs)

end
